theory Spec2Isabelle
  imports Main
begin

section \<open>Syntax nodes\<close>

text \<open>
  An \<^verbatim>\<open>*ast.Ident\<close> is known by its identity; the type-checker's tables are keyed by
  it.  A node of an ancestor path is modelled by its dynamic type and the children the
  classifier reads: \<^verbatim>\<open>Specs\<close> of a \<^verbatim>\<open>GenDecl\<close>, \<^verbatim>\<open>Name\<close> of a \<^verbatim>\<open>FuncDecl\<close> or
  \<^verbatim>\<open>TypeSpec\<close>, \<^verbatim>\<open>Names\<close> of a \<^verbatim>\<open>ValueSpec\<close> or \<^verbatim>\<open>Field\<close>, \<^verbatim>\<open>Sel\<close> of a
  \<^verbatim>\<open>SelectorExpr\<close>.  \<open>Stmt\<close> stands for every statement type but
  \<^verbatim>\<open>CommClause\<close>, \<open>Expr\<close> for every expression type that has no constructor of its
  own, \<open>OtherNode\<close> for the node types that are neither and are named in no case
  (\<^verbatim>\<open>BadDecl\<close>, \<^verbatim>\<open>Package\<close>).  A \<^verbatim>\<open>StarExpr\<close> carries the key under which the
  type-checker recorded it.
\<close>

type_synonym ident = nat

datatype node =
    GenDecl (Specs: "node list")
  | FuncDecl (Name: ident)
  | ImportSpec
  | ValueSpec (Names: "ident list")
  | TypeSpec (Name: ident)
  | Stmt
  | ArrayType
  | StructType
  | FuncType
  | InterfaceType
  | MapType
  | ChanType
  | Comment
  | CommentGroup
  | File
  | KeyValueExpr
  | CommClause
  | Ellipsis
  | Field (Names: "ident list")
  | FieldList
  | BasicLit
  | SelectorExpr (Sel: ident)
  | Ident (the_Ident: ident)
  | StarExpr (the_StarExpr: nat)
  | Expr
  | OtherNode

section \<open>Failures\<close>

text \<open>
  Go panics and returned errors are values of one type.  The three panics are the
  run-time failures the two source files can raise (a nil receiver, an index past the end
  of a slice, a failed single-value type assertion); the three errors are the
  \<^verbatim>\<open>error\<close> values built in \<^verbatim>\<open>ast.go\<close>: no node at a position, an import that a
  package does not have (the import's path, then the package's), and a node that is not an
  identifier.
\<close>

datatype error =
    NilPointerDereference
  | IndexOutOfRange
  | FailedTypeAssertion
  | NoNodeFound nat
  | ImportDoesNotExist string string
  | InvalidNode node

section \<open>The global package cache\<close>

subsection \<open>Data\<close>

type_synonym packagePath = string

text \<open>A \<^verbatim>\<open>*pkg\<close> is an address into the heap of allocated units.\<close>

type_synonym pkg_ref = nat

text \<open>
  \<^verbatim>\<open>packages.Package\<close>, the descriptor handed to \<^verbatim>\<open>Add\<close>: the fields
  \<^verbatim>\<open>recursiveAdd\<close> and \<^verbatim>\<open>newPackage\<close> read.  \<^verbatim>\<open>Syntax\<close> lists the raw files (by
  handle), \<^verbatim>\<open>Types\<close> is the path of the type-checked package (\<open>None\<close> when the
  pointer is nil), \<^verbatim>\<open>Imports\<close> the values of the import map in the order the
  \<^verbatim>\<open>range\<close> loop happens to meet them.  \<^verbatim>\<open>Errors\<close> and \<^verbatim>\<open>TypesInfo\<close> are
  copied by \<^verbatim>\<open>newPackage\<close> and read by nothing below; they are left out.
\<close>

datatype packages_Package =
  Package (ID: string) (PkgPath: string) (Syntax: "nat list") (Types: "string option")
    (Imports: "packages_Package list")

text \<open>The struct \<^verbatim>\<open>pkg\<close>: one compilation unit of the cache.\<close>

record pkg =
  pkg_id :: string
  pkgPath :: packagePath
  files :: "nat list"
  types :: "string option"
  pkg_imports :: "packagePath \<rightharpoonup> pkg_ref"

datatype globalPackage = GlobalPackage (gp_pkg: pkg_ref)

text \<open>
  What the methods do to the mutex and to the cache's map, in program order.
\<close>

datatype event = Lock | Unlock | RLock | RUnlock | MapRead packagePath | MapWrite packagePath | MapRange

text \<open>
  The \<^verbatim>\<open>globalCache\<close> (its \<^verbatim>\<open>pathMap\<close>), the heap of the units it points to, and
  the trace of lock and map events so far.
\<close>

record state =
  pathMap :: "packagePath \<rightharpoonup> globalPackage"
  heap :: "pkg list"
  trace :: "event list"

subsection \<open>Operations\<close>

definition NewCache :: state where
  "NewCache = \<lparr>pathMap = Map.empty, heap = [], trace = []\<rparr>"

definition emit :: "event \<Rightarrow> state \<Rightarrow> state" where
  "emit e s = s\<lparr>trace := trace s @ [e]\<rparr>"

text \<open>
  \<^verbatim>\<open>put\<close>: the key is \<^verbatim>\<open>pkg.GetTypes().Path()\<close>, so a unit whose \<^verbatim>\<open>types\<close> is nil
  panics.  No lock is taken here.
\<close>

definition put :: "pkg_ref \<Rightarrow> state \<Rightarrow> error + state" where
  "put p s =
     (if p < length (heap s) then
        (case types (heap s ! p) of
           None \<Rightarrow> Inl NilPointerDereference
         | Some path \<Rightarrow>
             Inr (emit (MapWrite path) (s\<lparr>pathMap := (pathMap s)(path \<mapsto> GlobalPackage p)\<rparr>)))
      else Inl NilPointerDereference)"

definition Put :: "pkg_ref \<Rightarrow> state \<Rightarrow> error + state" where
  "Put p s =
     (case put p (emit Lock s) of
        Inl e \<Rightarrow> Inl e
      | Inr s' \<Rightarrow> Inr (emit Unlock s'))"

definition get :: "packagePath \<Rightarrow> state \<Rightarrow> pkg_ref option \<times> state" where
  "get path s =
     (case pathMap s path of
        None \<Rightarrow> (None, emit (MapRead path) s)
      | Some p \<Rightarrow> (Some (gp_pkg p), emit (MapRead path) s))"

definition Get :: "packagePath \<Rightarrow> state \<Rightarrow> pkg_ref option \<times> state" where
  "Get path s = (case get path (emit RLock s) of (p, s') \<Rightarrow> (p, emit RUnlock s'))"

definition getGlobalPackage :: "packagePath \<Rightarrow> state \<Rightarrow> globalPackage option \<times> state" where
  "getGlobalPackage path s =
     (pathMap s path, emit RUnlock (emit (MapRead path) (emit RLock s)))"

text \<open>
  \<^verbatim>\<open>walk\<close>.  The visitor is a closure: it carries a state of its own (\<open>'v\<close>) and
  answers whether to stop.  The loop returns the calls it made, each with its answer, and
  the visitor's final state.  Go fixes no iteration order for a map; \<open>order\<close> is the
  order the runtime picks, an enumeration of the keys.
\<close>

fun walk_range ::
  "(pkg_ref \<Rightarrow> 'v \<Rightarrow> bool \<times> 'v) \<Rightarrow> globalPackage list \<Rightarrow> 'v \<Rightarrow> (pkg_ref \<times> bool) list \<times> 'v"
where
  "walk_range walkFunc [] v = ([], v)"
| "walk_range walkFunc (g # gs) v =
     (case walkFunc (gp_pkg g) v of
        (True, v') \<Rightarrow> ([(gp_pkg g, True)], v')
      | (False, v') \<Rightarrow>
          (case walk_range walkFunc gs v' of
             (calls, v'') \<Rightarrow> ((gp_pkg g, False) # calls, v'')))"

definition entries :: "state \<Rightarrow> packagePath list \<Rightarrow> globalPackage list" where
  "entries s order = List.map_filter (pathMap s) order"

definition walk ::
  "(pkg_ref \<Rightarrow> 'v \<Rightarrow> bool \<times> 'v) \<Rightarrow> packagePath list \<Rightarrow> 'v \<Rightarrow> state
     \<Rightarrow> ((pkg_ref \<times> bool) list \<times> 'v) \<times> state"
where
  "walk walkFunc order v s =
     (walk_range walkFunc (entries s order) v, emit RUnlock (emit MapRange (emit RLock s)))"

definition Walk ::
  "(pkg_ref \<Rightarrow> 'v \<Rightarrow> bool \<times> 'v) \<Rightarrow> packagePath list \<Rightarrow> 'v \<Rightarrow> state
     \<Rightarrow> ((pkg_ref \<times> bool) list \<times> 'v) \<times> state"
where
  "Walk walkFunc order v s = walk walkFunc order v s"

definition createAstFiles :: "packages_Package \<Rightarrow> nat list" where
  "createAstFiles p = foldl (\<lambda>astFiles file. astFiles @ [file]) [] (Syntax p)"

text \<open>\<^verbatim>\<open>newPackage\<close> allocates: the new unit's address is the next free one.\<close>

definition newPackage :: "packages_Package \<Rightarrow> state \<Rightarrow> pkg_ref \<times> state" where
  "newPackage p s =
     (length (heap s),
      s\<lparr>heap := heap s @
         [\<lparr>pkg_id = ID p, pkgPath = PkgPath p, files = createAstFiles p, types = Types p,
           pkg_imports = Map.empty\<rparr>]\<rparr>)"

text \<open>\<^verbatim>\<open>addImport\<close>: the map is indexed with the receiver's own \<^verbatim>\<open>pkgPath\<close>.\<close>

definition addImport :: "pkg_ref \<Rightarrow> pkg_ref \<Rightarrow> state \<Rightarrow> error + state" where
  "addImport p ip s =
     (if p < length (heap s) then
        Inr (s\<lparr>heap := (heap s)[p := (heap s ! p)
               \<lparr>pkg_imports := (pkg_imports (heap s ! p))(pkgPath (heap s ! p) \<mapsto> ip)\<rparr>]\<rparr>)
      else Inl NilPointerDereference)"

fun recursiveAdd :: "packages_Package \<Rightarrow> pkg_ref option \<Rightarrow> state \<Rightarrow> error + state"
  and recursiveAdd_imports :: "packages_Package list \<Rightarrow> pkg_ref \<Rightarrow> state \<Rightarrow> error + state"
where
  "recursiveAdd (Package i path syn ty imps) parent s =
     (case getGlobalPackage path s of
        (Some p, s1) \<Rightarrow>
          (case parent of
             None \<Rightarrow> Inr s1
           | Some par \<Rightarrow> addImport par (gp_pkg p) s1)
      | (None, s1) \<Rightarrow>
          (case newPackage (Package i path syn ty imps) s1 of
             (p, s2) \<Rightarrow>
               (case recursiveAdd_imports imps p s2 of
                  Inl e \<Rightarrow> Inl e
                | Inr s3 \<Rightarrow>
                    (case put p s3 of
                       Inl e \<Rightarrow> Inl e
                     | Inr s4 \<Rightarrow>
                         (case parent of
                            None \<Rightarrow> Inr s4
                          | Some par \<Rightarrow> addImport par p s4)))))"
| "recursiveAdd_imports [] p s = Inr s"
| "recursiveAdd_imports (ip # ips) p s =
     (case recursiveAdd ip (Some p) s of
        Inl e \<Rightarrow> Inl e
      | Inr s' \<Rightarrow> recursiveAdd_imports ips p s')"

definition Add :: "packages_Package \<Rightarrow> state \<Rightarrow> error + state" where
  "Add p s = recursiveAdd p None s"

text \<open>
  The lock discipline of a trace: every write of the cache's map happens while the
  writer lock is held.  \<open>held\<close> says whether it is held on entry.
\<close>

fun writes_locked :: "bool \<Rightarrow> event list \<Rightarrow> bool" where
  "writes_locked held [] = True"
| "writes_locked held (Lock # es) = writes_locked True es"
| "writes_locked held (Unlock # es) = writes_locked False es"
| "writes_locked held (MapWrite k # es) = (held \<and> writes_locked held es)"
| "writes_locked held (RLock # es) = writes_locked held es"
| "writes_locked held (RUnlock # es) = writes_locked held es"
| "writes_locked held (MapRead k # es) = writes_locked held es"
| "writes_locked held (MapRange # es) = writes_locked held es"

section \<open>The node classifier\<close>

subsection \<open>The semantic model\<close>

text \<open>The dynamic types of a \<^verbatim>\<open>types.Object\<close>.\<close>

datatype object_kind =
    types_PkgName
  | types_Const
  | types_Label
  | types_TypeName
  | types_Var
  | types_Func
  | types_Builtin
  | types_Nil

text \<open>
  \<^verbatim>\<open>types.Info\<close>: \<^verbatim>\<open>Defs\<close> and \<^verbatim>\<open>Uses\<close> map an identifier to its object (\<open>None\<close>
  for a missing entry and for a nil one), \<^verbatim>\<open>IsType\<close> is \<^verbatim>\<open>Types[e].IsType()\<close>.
  \<^verbatim>\<open>ObjectOf\<close> is the library's: the definition if there is one, the use otherwise.
\<close>

record types_Info =
  Defs :: "ident \<rightharpoonup> object_kind"
  Uses :: "ident \<rightharpoonup> object_kind"
  IsType :: "nat \<Rightarrow> bool"

definition ObjectOf :: "types_Info \<Rightarrow> ident \<Rightarrow> object_kind option" where
  "ObjectOf info i = (case Defs info i of Some obj \<Rightarrow> Some obj | None \<Rightarrow> Uses info i)"

text \<open>
  An \<^verbatim>\<open>*ast.File\<close> as the resolver sees it: \<^verbatim>\<open>Pos()\<close> (\<^verbatim>\<open>token.NoPos\<close> is 0) and a
  handle on its tree.
\<close>

record ast_File =
  File_Pos :: nat
  File_tree :: nat

definition NoPos :: nat where
  "NoPos = 0"

text \<open>
  The interface \<^verbatim>\<open>Package\<close> of package \<^verbatim>\<open>source\<close>, by the methods \<^verbatim>\<open>ast.go\<close> calls.
  \<^verbatim>\<open>GetSyntax\<close> and \<^verbatim>\<open>GetTypes\<close> may return nil (\<open>None\<close>; of the type-checked
  package only the path is read).  The two files do not define \<^verbatim>\<open>GetImport\<close>: it is a
  field, and what it returns for a path, nil (\<open>None\<close>) or a package, is the field's value.
\<close>

datatype source_Package =
  SourcePackage (GetSyntax: "ast_File list option") (GetTypes: "string option")
    (GetTypesInfo: types_Info) (GetImport: "string \<Rightarrow> source_Package option")

subsection \<open>findInterestingNode\<close>

datatype action = actionUnknown | actionExpr | actionType | actionStmt | actionPackage

text \<open>
  The interfaces of the two interface cases of the type switch: \<^verbatim>\<open>ast.Stmt\<close> (every
  statement type, \<^verbatim>\<open>*ast.CommClause\<close> among them) and \<^verbatim>\<open>ast.Expr\<close>.
\<close>

definition implements_Stmt :: "node \<Rightarrow> bool" where
  "implements_Stmt n = (n = Stmt \<or> n = CommClause)"

definition implements_Expr :: "node \<Rightarrow> bool" where
  "implements_Expr n =
     (n = ArrayType \<or> n = StructType \<or> n = FuncType \<or> n = InterfaceType \<or> n = MapType \<or>
      n = ChanType \<or> n = KeyValueExpr \<or> n = Ellipsis \<or> n = BasicLit \<or> is_SelectorExpr n \<or>
      is_Ident n \<or> is_StarExpr n \<or> n = Expr)"

text \<open>One turn of the loop either returns (a result or a panic) or goes on with a new path.\<close>

datatype control = Done "error + node list \<times> action" | Continue "node list"

text \<open>\<^verbatim>\<open>path[i]\<close>: an index past the end panics.\<close>

definition index :: "node list \<Rightarrow> nat \<Rightarrow> error + node" where
  "index path i = (if i < length path then Inr (path ! i) else Inl IndexOutOfRange)"

text \<open>The case \<^verbatim>\<open>*types.Var\<close> of the inner switch.\<close>

definition case_Var :: "node list \<Rightarrow> control" where
  "case_Var path =
     (case index path 1 of
        Inl e \<Rightarrow> Done (Inl e)
      | Inr p1 \<Rightarrow>
          if is_Field p1 then
            (case index path 2 of
               Inl e \<Rightarrow> Done (Inl e)
             | Inr p2 \<Rightarrow>
                 if p2 \<noteq> FieldList then Done (Inl FailedTypeAssertion)
                 else
                   (case index path 3 of
                      Inl e \<Rightarrow> Done (Inl e)
                    | Inr p3 \<Rightarrow>
                        if p3 = StructType then Done (Inr (drop 3 path, actionType))
                        else Done (Inr (path, actionExpr))))
          else Done (Inr (path, actionExpr)))"

text \<open>
  The second switch of the case \<^verbatim>\<open>*ast.Ident\<close>, reached when the identifier has no
  object.  The case \<^verbatim>\<open>*ast.Field\<close> has an empty body: control leaves the switch and
  reaches the end of the loop body, which ascends.
\<close>

definition case_no_object :: "node list \<Rightarrow> control" where
  "case_no_object path =
     (case index path 1 of
        Inl e \<Rightarrow> Done (Inl e)
      | Inr p1 \<Rightarrow>
          if is_SelectorExpr p1 then Done (Inr (drop 1 path, actionExpr))
          else if is_Field p1 then Continue (drop 1 path)
          else if p1 = File then Done (Inr (path, actionPackage))
          else if p1 = ImportSpec then Done (Inr (drop 1 path, actionPackage))
          else Done (Inr (path, actionUnknown)))"

definition case_Ident :: "source_Package \<Rightarrow> ident \<Rightarrow> node list \<Rightarrow> control" where
  "case_Ident pkg n path =
     (case ObjectOf (GetTypesInfo pkg) n of
        Some types_PkgName \<Rightarrow> Done (Inr (path, actionPackage))
      | Some types_Const \<Rightarrow> Done (Inr (path, actionExpr))
      | Some types_Label \<Rightarrow> Done (Inr (path, actionStmt))
      | Some types_TypeName \<Rightarrow> Done (Inr (path, actionType))
      | Some types_Var \<Rightarrow> case_Var path
      | Some types_Func \<Rightarrow> Done (Inr (path, actionExpr))
      | Some types_Builtin \<Rightarrow> Continue (drop 1 path)
      | Some types_Nil \<Rightarrow> Done (Inr (path, actionExpr))
      | None \<Rightarrow> case_no_object path)"

text \<open>
  The body of the loop, for a path that is not empty: the type switch on \<^verbatim>\<open>path[0]\<close>,
  its cases in the order of the source, and the ascent that follows the switch.
\<close>

definition loop_body :: "source_Package \<Rightarrow> node list \<Rightarrow> control" where
  "loop_body pkg path =
     (let n = hd path in
      if is_GenDecl n then
        (if length (Specs n) = 1 then Continue (Specs n ! 0 # path)
         else Done (Inr (path, actionUnknown)))
      else if is_FuncDecl n then Continue (Ident (Name n) # path)
      else if n = ImportSpec then Done (Inr (path, actionPackage))
      else if is_ValueSpec n then
        (if length (Names n) = 1 then Continue (Ident (Names n ! 0) # path)
         else Done (Inr (path, actionUnknown)))
      else if is_TypeSpec n then Continue (Ident (Name n) # path)
      else if implements_Stmt n then Done (Inr (path, actionStmt))
      else if n = ArrayType \<or> n = StructType \<or> n = FuncType \<or> n = InterfaceType \<or>
              n = MapType \<or> n = ChanType then Done (Inr (path, actionType))
      else if n = Comment \<or> n = CommentGroup \<or> n = File \<or> n = KeyValueExpr \<or>
              n = CommClause then Done (Inr (path, actionUnknown))
      else if n = Ellipsis then Continue (drop 1 path)
      else if is_Field n then
        (if length (Names n) = 1 then Continue (Ident (Names n ! 0) # path)
         else Continue (drop 1 path))
      else if n = FieldList then Continue (drop 1 path)
      else if n = BasicLit then
        (case index path 1 of
           Inl e \<Rightarrow> Done (Inl e)
         | Inr p1 \<Rightarrow>
             if p1 = ImportSpec then Done (Inr (drop 1 path, actionPackage))
             else Done (Inr (path, actionExpr)))
      else if is_SelectorExpr n then
        (if Uses (GetTypesInfo pkg) (Sel n) = None then Done (Inr (path, actionUnknown))
         else Continue (Ident (Sel n) # path))
      else if is_Ident n then case_Ident pkg (the_Ident n) path
      else if is_StarExpr n then
        (if IsType (GetTypesInfo pkg) (the_StarExpr n) then Done (Inr (path, actionType))
         else Done (Inr (path, actionExpr)))
      else if implements_Expr n then Done (Inr (path, actionExpr))
      else Continue (drop 1 path))"

text \<open>
  The loop.  It need not end, so the function is partial: \<open>None\<close> is a call that never
  returns.  The path that comes back when the loop runs out of nodes is nil, the empty
  list.
\<close>

partial_function (option) findInterestingNode ::
  "source_Package \<Rightarrow> node list \<Rightarrow> (error + node list \<times> action) option"
where
  "findInterestingNode pkg path =
     (if length path > 0 then
        (case loop_body pkg path of
           Done r \<Rightarrow> Some r
         | Continue path' \<Rightarrow> findInterestingNode pkg path')
      else Some (Inr ([], actionUnknown)))"

section \<open>The position and symbol resolver\<close>

text \<open>
  What \<^verbatim>\<open>ast.go\<close> calls and does not define: \<^verbatim>\<open>fset.File\<close> of the file set it is
  given, \<^verbatim>\<open>tokenFileContainsPos\<close>, and \<^verbatim>\<open>astutil.PathEnclosingInterval\<close> (a nil path
  is \<open>None\<close>).  The functions below take them as a parameter, in place of \<^verbatim>\<open>fset\<close>.
\<close>

record 'tf externals =
  fset_File :: "nat \<Rightarrow> 'tf"
  tokenFileContainsPos :: "'tf \<Rightarrow> nat \<Rightarrow> bool"
  PathEnclosingInterval :: "ast_File \<Rightarrow> nat \<Rightarrow> nat \<Rightarrow> node list option \<times> bool"

text \<open>A \<^verbatim>\<open>types.Object\<close>: its position and the path of its package (nil for none).\<close>

record types_Object =
  Object_Pos :: nat
  Object_Pkg :: "string option"

text \<open>
  Slices of nodes are lists, and the empty list stands for the nil slice and for an empty
  one: the callers of \<^verbatim>\<open>doEnclosingInterval\<close> read the length only.  The one test
  against nil is the test of what \<^verbatim>\<open>PathEnclosingInterval\<close> returns, in the
  \<^verbatim>\<open>range\<close> loop of \<^verbatim>\<open>doEnclosingInterval\<close>.
\<close>

fun doEnclosingInterval_range ::
  "'tf externals \<Rightarrow> ast_File list \<Rightarrow> nat \<Rightarrow> nat \<Rightarrow> node list \<times> bool"
where
  "doEnclosingInterval_range X [] start endpos = ([], False)"
| "doEnclosingInterval_range X (f # fs) start endpos =
     (if File_Pos f = NoPos then doEnclosingInterval_range X fs start endpos
      else if \<not> tokenFileContainsPos X (fset_File X (File_Pos f)) start
        then doEnclosingInterval_range X fs start endpos
      else
        (case PathEnclosingInterval X f start endpos of
           (Some path, exact) \<Rightarrow> (path, exact)
         | (None, exact) \<Rightarrow> doEnclosingInterval_range X fs start endpos))"

definition doEnclosingInterval ::
  "'tf externals \<Rightarrow> source_Package option \<Rightarrow> nat \<Rightarrow> nat \<Rightarrow> node list \<times> bool"
where
  "doEnclosingInterval X pkg start endpos =
     (case pkg of
        None \<Rightarrow> ([], False)
      | Some p \<Rightarrow>
          (case GetSyntax p of
             None \<Rightarrow> ([], False)
           | Some fs \<Rightarrow> doEnclosingInterval_range X fs start endpos))"

definition astPathEnclosingInterval ::
  "'tf externals \<Rightarrow> source_Package option \<Rightarrow> nat \<Rightarrow> nat \<Rightarrow> node list \<times> bool"
where
  "astPathEnclosingInterval X pkg start endpos = doEnclosingInterval X pkg start endpos"

text \<open>\<^verbatim>\<open>getPathNodes\<close> returns the nodes and an error (\<open>None\<close> is the nil error).\<close>

definition getPathNodes ::
  "'tf externals \<Rightarrow> source_Package option \<Rightarrow> nat \<Rightarrow> nat \<Rightarrow> node list \<times> error option"
where
  "getPathNodes X pkg start endpos =
     (let nodes = fst (astPathEnclosingInterval X pkg start endpos) in
      if length nodes = 0 then (nodes, Some (NoNodeFound start)) else (nodes, None))"

definition fetchIdentFromPathNodes :: "node list \<Rightarrow> error + ident" where
  "fetchIdentFromPathNodes nodes =
     (case index nodes 0 of
        Inl e \<Rightarrow> Inl e
      | Inr firstNode \<Rightarrow>
          if is_Ident firstNode then Inr (the_Ident firstNode)
          else Inl (InvalidNode firstNode))"

text \<open>
  \<^verbatim>\<open>getObjectPathNode\<close> returns nodes, an identifier and an error; the result here is
  the error, or the nodes and the identifier.  The first search drops its error and reads
  the nodes; when there are none, the import is looked up and searched, and an error of
  that search is returned; then the identifier is fetched from the nodes at hand.
\<close>

definition getObjectPathNode ::
  "'tf externals \<Rightarrow> source_Package \<Rightarrow> types_Object \<Rightarrow> error + node list \<times> ident"
where
  "getObjectPathNode X pkg obj =
     (let nodes = fst (getPathNodes X (Some pkg) (Object_Pos obj) (Object_Pos obj)) in
      case
        (if length nodes = 0 then
           (case Object_Pkg obj of
              None \<Rightarrow> Inl NilPointerDereference
            | Some opath \<Rightarrow>
                (case GetImport pkg opath of
                   None \<Rightarrow>
                     (case GetTypes pkg of
                        None \<Rightarrow> Inl NilPointerDereference
                      | Some ppath \<Rightarrow> Inl (ImportDoesNotExist opath ppath))
                 | Some ip \<Rightarrow>
                     (case getPathNodes X (Some ip) (Object_Pos obj) (Object_Pos obj) of
                        (nodes', Some err) \<Rightarrow> Inl err
                      | (nodes', None) \<Rightarrow> Inr nodes')))
         else Inr nodes)
      of
        Inl e \<Rightarrow> Inl e
      | Inr nodes \<Rightarrow>
          (case fetchIdentFromPathNodes nodes of
             Inl e \<Rightarrow> Inl e
           | Inr i \<Rightarrow> Inr (nodes, i)))"

section \<open>Properties: definitions\<close>

subsection \<open>Well-formed ancestor chains\<close>

text \<open>
  What the classifier relies on in a path handed to it: the path is a chain of ancestors
  that ends at the file root, nothing stands above the file root, the parent of a
  \<^verbatim>\<open>Field\<close> is a \<^verbatim>\<open>FieldList\<close>, and the \<^verbatim>\<open>Specs\<close> of a \<^verbatim>\<open>GenDecl\<close> are import,
  value and type specs, as in every tree that \<^verbatim>\<open>go/parser\<close> builds.
\<close>

definition is_Spec :: "node \<Rightarrow> bool" where
  "is_Spec n = (n = ImportSpec \<or> is_ValueSpec n \<or> is_TypeSpec n)"

fun well_formed_chain :: "node list \<Rightarrow> bool" where
  "well_formed_chain [] = False"
| "well_formed_chain [n] = (n = File)"
| "well_formed_chain (c # p # rest) =
     (c \<noteq> File \<and> (if is_Field c then p = FieldList else True) \<and>
      (if is_GenDecl c then list_all is_Spec (Specs c) else True) \<and>
      well_formed_chain (p # rest))"

text \<open>The three ancestors of the first node are a field, a field list and a struct type.\<close>

definition struct_member :: "node list \<Rightarrow> bool" where
  "struct_member path =
     (case path of
        n # f # fl # st # rest \<Rightarrow> is_Field f \<and> fl = FieldList \<and> st = StructType
      | _ \<Rightarrow> False)"

text \<open>
  \<open>ascends pkg path path'\<close>: the loop, started on \<open>path\<close>, comes to the head of its
  body with \<open>path'\<close> without having returned.
\<close>

inductive ascends :: "source_Package \<Rightarrow> node list \<Rightarrow> node list \<Rightarrow> bool" for pkg where
  here: "ascends pkg path path"
| turn: "length path > 0 \<Longrightarrow> loop_body pkg path = Continue path' \<Longrightarrow> ascends pkg path' path''
         \<Longrightarrow> ascends pkg path path''"

subsection \<open>The files an interval search looks into\<close>

definition files_of :: "source_Package \<Rightarrow> ast_File list" where
  "files_of pkg = (case GetSyntax pkg of None \<Rightarrow> [] | Some fs \<Rightarrow> fs)"

text \<open>A file is considered when its position is valid and its range contains \<open>start\<close>.\<close>

definition considered :: "'tf externals \<Rightarrow> nat \<Rightarrow> ast_File \<Rightarrow> bool" where
  "considered X start f =
     (File_Pos f \<noteq> NoPos \<and> tokenFileContainsPos X (fset_File X (File_Pos f)) start)"

subsection \<open>The calls of a visitor\<close>

text \<open>
  The visitor called on each unit of a list in turn, its state passed on from call to call,
  whatever it answers: the answer and the state after each call.
\<close>

fun visitor_run ::
  "(pkg_ref \<Rightarrow> 'v \<Rightarrow> bool \<times> 'v) \<Rightarrow> 'v \<Rightarrow> pkg_ref list \<Rightarrow> (bool \<times> 'v) list"
where
  "visitor_run walkFunc v [] = []"
| "visitor_run walkFunc v (u # us) =
     (case walkFunc u v of (b, v') \<Rightarrow> (b, v') # visitor_run walkFunc v' us)"

subsection \<open>A unit of the cache as a package of the resolver\<close>


subsection \<open>Concrete inputs\<close>

text \<open>The scenario of the specification: \<^verbatim>\<open>main\<close> imports \<^verbatim>\<open>util\<close>.\<close>

definition util_descriptor :: packages_Package where
  "util_descriptor = Package ''util-id'' ''util'' [] (Some ''util'') []"

definition main_descriptor :: packages_Package where
  "main_descriptor = Package ''main-id'' ''main'' [] (Some ''main'') [util_descriptor]"

definition after_Add_util :: state where
  "after_Add_util =
     \<lparr>pathMap = [''util'' \<mapsto> GlobalPackage 0],
      heap =
        [\<lparr>pkg_id = ''util-id'', pkgPath = ''util'', files = [], types = Some ''util'',
          pkg_imports = Map.empty\<rparr>],
      trace = [RLock, MapRead ''util'', RUnlock, MapWrite ''util'']\<rparr>"

definition after_Add_main :: state where
  "after_Add_main =
     \<lparr>pathMap = [''util'' \<mapsto> GlobalPackage 1, ''main'' \<mapsto> GlobalPackage 0],
      heap =
        [\<lparr>pkg_id = ''main-id'', pkgPath = ''main'', files = [], types = Some ''main'',
          pkg_imports = [''main'' \<mapsto> 1]\<rparr>,
         \<lparr>pkg_id = ''util-id'', pkgPath = ''util'', files = [], types = Some ''util'',
          pkg_imports = Map.empty\<rparr>],
      trace =
        [RLock, MapRead ''main'', RUnlock, RLock, MapRead ''util'', RUnlock,
         MapWrite ''util'', MapWrite ''main'']\<rparr>"

text \<open>A unit that imports two: \<^verbatim>\<open>app\<close> imports \<^verbatim>\<open>util\<close> and \<^verbatim>\<open>log\<close>.\<close>

definition app_descriptor :: packages_Package where
  "app_descriptor =
     Package ''app-id'' ''app'' [] (Some ''app'')
       [util_descriptor, Package ''log-id'' ''log'' [] (Some ''log'') []]"

definition after_Add_app :: state where
  "after_Add_app =
     \<lparr>pathMap =
        [''util'' \<mapsto> GlobalPackage 1, ''log'' \<mapsto> GlobalPackage 2, ''app'' \<mapsto> GlobalPackage 0],
      heap =
        [\<lparr>pkg_id = ''app-id'', pkgPath = ''app'', files = [], types = Some ''app'',
          pkg_imports = [''app'' \<mapsto> 2]\<rparr>,
         \<lparr>pkg_id = ''util-id'', pkgPath = ''util'', files = [], types = Some ''util'',
          pkg_imports = Map.empty\<rparr>,
         \<lparr>pkg_id = ''log-id'', pkgPath = ''log'', files = [], types = Some ''log'',
          pkg_imports = Map.empty\<rparr>],
      trace =
        [RLock, MapRead ''app'', RUnlock, RLock, MapRead ''util'', RUnlock, MapWrite ''util'',
         RLock, MapRead ''log'', RUnlock, MapWrite ''log'', MapWrite ''app'']\<rparr>"

text \<open>
  Two visitors that count their calls: one never stops, one stops on its \<open>k\<close>-th call.
\<close>

definition count_all :: "pkg_ref \<Rightarrow> nat \<Rightarrow> bool \<times> nat" where
  "count_all p v = (False, Suc v)"

definition stop_on_call :: "nat \<Rightarrow> pkg_ref \<Rightarrow> nat \<Rightarrow> bool \<times> nat" where
  "stop_on_call k p v = (Suc v = k, Suc v)"

text \<open>
  A package whose type-checker recorded nothing (a file that is not part of the analysed
  package), and one in which identifier 1 is a variable.
\<close>

definition unanalyzed :: source_Package where
  "unanalyzed =
     SourcePackage (Some []) (Some ''p'')
       \<lparr>Defs = Map.empty, Uses = Map.empty, IsType = (\<lambda>e. False)\<rparr> (\<lambda>path. None)"

definition analyzed :: source_Package where
  "analyzed =
     SourcePackage (Some []) (Some ''p'')
       \<lparr>Defs = [1 \<mapsto> types_Var], Uses = Map.empty, IsType = (\<lambda>e. False)\<rparr> (\<lambda>path. None)"

text \<open>
  The paths of \<^verbatim>\<open>x\<close> in \<^verbatim>\<open>type T struct { x int }\<close>, of \<^verbatim>\<open>x\<close> in
  \<^verbatim>\<open>type T struct { x, y int }\<close>, of \<^verbatim>\<open>x\<close> in \<^verbatim>\<open>var x int\<close> and of \<^verbatim>\<open>U\<close>
  (identifier 5) in \<^verbatim>\<open>type T struct { x U }\<close>.
\<close>

definition field_type_path :: "node list" where
  "field_type_path =
     [Ident 5, Field [1], FieldList, StructType, TypeSpec 2, GenDecl [TypeSpec 2], File]"

definition struct_field_path :: "node list" where
  "struct_field_path =
     [Ident 1, Field [1], FieldList, StructType, TypeSpec 2, GenDecl [TypeSpec 2], File]"

definition two_fields_path :: "node list" where
  "two_fields_path =
     [Ident 1, Field [1, 3], FieldList, StructType, TypeSpec 2, GenDecl [TypeSpec 2], File]"

definition var_path :: "node list" where
  "var_path = [Ident 1, ValueSpec [1], GenDecl [ValueSpec [1]], File]"

text \<open>
  A file set of three files of 100 positions each (a token file is its base and size), and
  the search inside a tree: the tree 2 has the identifier 7 at position 250, every other
  search finds the file root only.
\<close>

definition three_files :: "(nat \<times> nat) externals" where
  "three_files =
     \<lparr>fset_File = (\<lambda>p. if p < 101 then (1, 100) else if p < 202 then (102, 100) else (203, 100)),
      tokenFileContainsPos = (\<lambda>tf p. fst tf \<le> p \<and> p < fst tf + snd tf),
      PathEnclosingInterval =
        (\<lambda>f start endpos.
           if File_tree f = 2 \<and> start = 250 \<and> endpos = 250
           then (Some [Ident 7, ValueSpec [7], GenDecl [ValueSpec [7]], File], True)
           else (Some [File], False))\<rparr>"

definition unit_B :: source_Package where
  "unit_B =
     SourcePackage
       (Some [\<lparr>File_Pos = NoPos, File_tree = 3\<rparr>, \<lparr>File_Pos = 102, File_tree = 1\<rparr>,
              \<lparr>File_Pos = 203, File_tree = 2\<rparr>])
       (Some ''b'')
       \<lparr>Defs = [7 \<mapsto> types_Var], Uses = Map.empty, IsType = (\<lambda>e. False)\<rparr> (\<lambda>path. None)"






section \<open>Properties of the cache\<close>

lemmas cache_defs =
  Add_def NewCache_def getGlobalPackage_def emit_def newPackage_def put_def Put_def
  addImport_def createAstFiles_def Get_def get_def

lemma Add_main_descriptor: "Add main_descriptor NewCache = Inr after_Add_main"
  by (simp add: cache_defs main_descriptor_def util_descriptor_def after_Add_main_def)

lemma Add_util_descriptor: "Add util_descriptor NewCache = Inr after_Add_util"
  by (simp add: cache_defs util_descriptor_def after_Add_util_def)

text \<open>The key \<^verbatim>\<open>addImport\<close> writes is the path of the unit it is called on.\<close>

lemma addImport_key:
  "addImport p ip s = Inr s' \<Longrightarrow>
   pkg_imports (heap s' ! p) = (pkg_imports (heap s ! p))(pkgPath (heap s ! p) \<mapsto> ip)"
  by (auto simp: addImport_def split: if_splits)

text \<open>
  C1.  \<^verbatim>\<open>Add\<close> of the descriptor of \<^verbatim>\<open>main\<close>, which imports \<^verbatim>\<open>util\<close>, on an empty
  cache: the cache then holds two units, and \<^verbatim>\<open>Get("util")\<close> returns the unit at
  address 1.  The claim goes on: that unit is the one stored in the imports of \<^verbatim>\<open>main\<close>
  under the key \<^verbatim>\<open>util\<close>.  In the code it is not: \<^verbatim>\<open>addImport\<close> indexes the map with
  the importing unit's own path, so the imports of \<^verbatim>\<open>main\<close> (the unit at address 0) have
  no entry for \<^verbatim>\<open>util\<close>, and hold \<^verbatim>\<open>util\<close>'s unit under the key \<^verbatim>\<open>main\<close>.
\<close>

theorem Add_main_imports_keyed_by_importer:
  "Add main_descriptor NewCache = Inr after_Add_main \<and>
   card (dom (pathMap after_Add_main)) = 2 \<and>
   fst (Get ''util'' after_Add_main) = Some 1 \<and>
   pkgPath (heap after_Add_main ! 0) = ''main'' \<and>
   pkg_imports (heap after_Add_main ! 0) ''util'' = None \<and>
   pkg_imports (heap after_Add_main ! 0) ''main'' = Some 1"
proof (intro conjI)
  show "Add main_descriptor NewCache = Inr after_Add_main"
    by (rule Add_main_descriptor)
  show "card (dom (pathMap after_Add_main)) = 2"
    by (simp add: after_Add_main_def)
  show "fst (Get ''util'' after_Add_main) = Some 1"
    by (simp add: after_Add_main_def Get_def get_def emit_def)
qed (simp_all add: after_Add_main_def)

text \<open>
  C4.  The claim: during \<^verbatim>\<open>Add\<close>, each new unit is written into the cache's map under
  the writer lock.  In the code \<^verbatim>\<open>recursiveAdd\<close> calls \<^verbatim>\<open>put\<close>, which takes no lock,
  where \<^verbatim>\<open>Put\<close> wraps the same call in \<^verbatim>\<open>Lock\<close> and \<^verbatim>\<open>Unlock\<close>.  On an empty cache,
  \<^verbatim>\<open>Add\<close> of \<^verbatim>\<open>util\<close> reads the map under the reader lock, releases it, and writes the
  map with no lock held; \<^verbatim>\<open>Put\<close> of the same unit writes it with the lock held.
\<close>

theorem recursiveAdd_writes_map_unlocked:
  "Add util_descriptor NewCache = Inr after_Add_util \<and>
   trace after_Add_util = [RLock, MapRead ''util'', RUnlock, MapWrite ''util''] \<and>
   \<not> writes_locked False (trace after_Add_util) \<and>
   (\<exists>s. Put 0 (after_Add_util\<lparr>trace := []\<rparr>) = Inr s \<and>
        trace s = [Lock, MapWrite ''util'', Unlock] \<and> writes_locked False (trace s))"
proof (intro conjI)
  show "Add util_descriptor NewCache = Inr after_Add_util"
    by (rule Add_util_descriptor)
  show "trace after_Add_util = [RLock, MapRead ''util'', RUnlock, MapWrite ''util'']"
    by (simp add: after_Add_util_def)
  show "\<not> writes_locked False (trace after_Add_util)"
    by (simp add: after_Add_util_def)
  show "\<exists>s. Put 0 (after_Add_util\<lparr>trace := []\<rparr>) = Inr s \<and>
        trace s = [Lock, MapWrite ''util'', Unlock] \<and> writes_locked False (trace s)"
    by (simp add: after_Add_util_def Put_def put_def emit_def)
qed

subsection \<open>Walk\<close>

lemma walk_range_stops_at_first_true:
  "k < length gs \<Longrightarrow> \<forall>j<k. \<not> fst (visitor_run f v (map gp_pkg gs) ! j) \<Longrightarrow>
   fst (visitor_run f v (map gp_pkg gs) ! k) \<Longrightarrow>
   walk_range f gs v =
     (zip (take (Suc k) (map gp_pkg gs)) (map fst (take (Suc k) (visitor_run f v (map gp_pkg gs)))),
      snd (visitor_run f v (map gp_pkg gs) ! k))"
proof (induction gs arbitrary: v k)
  case Nil
  then show ?case by simp
next
  case (Cons g gs)
  obtain b w where fw: "f (gp_pkg g) v = (b, w)"
    by (cases "f (gp_pkg g) v")
  show ?case
  proof (cases k)
    case 0
    with Cons.prems fw show ?thesis by simp
  next
    case (Suc j)
    with Cons.prems(2) fw have nb: "\<not> b"
      by (auto dest: spec[of _ 0])
    from Cons.prems Suc fw have "j < length gs"
      "\<forall>i<j. \<not> fst (visitor_run f w (map gp_pkg gs) ! i)"
      "fst (visitor_run f w (map gp_pkg gs) ! j)"
      by (auto dest: spec[of _ "Suc i" for i])
    from Cons.IH[OF this] fw nb Suc show ?thesis
      by simp
  qed
qed

lemma walk_range_visits_all:
  "\<forall>a\<in>set (visitor_run f v (map gp_pkg gs)). \<not> fst a \<Longrightarrow>
   walk_range f gs v =
     (zip (map gp_pkg gs) (map fst (visitor_run f v (map gp_pkg gs))),
      last (v # map snd (visitor_run f v (map gp_pkg gs))))"
proof (induction gs arbitrary: v)
  case Nil
  then show ?case by simp
next
  case (Cons g gs)
  obtain b w where fw: "f (gp_pkg g) v = (b, w)"
    by (cases "f (gp_pkg g) v")
  with Cons.prems have nb: "\<not> b"
    and r: "\<forall>a\<in>set (visitor_run f w (map gp_pkg gs)). \<not> fst a"
    by auto
  from Cons.IH[OF r] fw nb show ?case
    by simp
qed

lemma entries_enumeration:
  "set order \<subseteq> dom (pathMap s) \<Longrightarrow> map Some (entries s order) = map (pathMap s) order"
  unfolding entries_def
  by (induction order) (auto simp: List.map_filter_simps split: option.splits)

lemma entries_length:
  assumes "distinct order" and "set order = dom (pathMap s)"
  shows "length (entries s order) = card (dom (pathMap s))"
proof -
  from assms(2) have "map Some (entries s order) = map (pathMap s) order"
    by (intro entries_enumeration) simp
  then have "length (entries s order) = length order"
    by (metis length_map)
  with assms distinct_card[of order] show ?thesis
    by simp
qed

text \<open>
  C8.  \<^verbatim>\<open>Walk\<close> over a cache whose keys the loop meets in the order \<open>order\<close> (each key
  once), with a visitor \<open>walkFunc\<close> that starts in the state \<open>v\<close>.  The units of the walk
  are the entries of the cache, one for each key.  If the visitor, called on the units in
  turn, answers true for the first time on the unit \<open>k\<close>, then \<^verbatim>\<open>Walk\<close> has called it on
  the units up to \<open>k\<close> and on no other, each once and in order, with the answers the visitor
  gave, and leaves it in the state after that call.  If the visitor never answers true,
  \<^verbatim>\<open>Walk\<close> has called it on every unit, once, and leaves it in its last state.
\<close>

theorem Walk_stops_at_true_or_visits_all:
  assumes "distinct order" and "set order = dom (pathMap s)"
  shows "length (entries s order) = card (dom (pathMap s)) \<and>
         map Some (entries s order) = map (pathMap s) order \<and>
         (\<forall>k<length (entries s order).
            (\<forall>j<k. \<not> fst (visitor_run walkFunc v (map gp_pkg (entries s order)) ! j)) \<and>
            fst (visitor_run walkFunc v (map gp_pkg (entries s order)) ! k) \<longrightarrow>
            fst (Walk walkFunc order v s) =
              (zip (take (Suc k) (map gp_pkg (entries s order)))
                 (map fst (take (Suc k) (visitor_run walkFunc v (map gp_pkg (entries s order))))),
               snd (visitor_run walkFunc v (map gp_pkg (entries s order)) ! k))) \<and>
         ((\<forall>a\<in>set (visitor_run walkFunc v (map gp_pkg (entries s order))). \<not> fst a) \<longrightarrow>
            fst (Walk walkFunc order v s) =
              (zip (map gp_pkg (entries s order))
                 (map fst (visitor_run walkFunc v (map gp_pkg (entries s order)))),
               last (v # map snd (visitor_run walkFunc v (map gp_pkg (entries s order))))))"
proof (intro conjI allI impI)
  show "length (entries s order) = card (dom (pathMap s))"
    using assms by (rule entries_length)
  show "map Some (entries s order) = map (pathMap s) order"
    using assms(2) by (intro entries_enumeration) simp
next
  fix k
  assume "k < length (entries s order)"
    and "(\<forall>j<k. \<not> fst (visitor_run walkFunc v (map gp_pkg (entries s order)) ! j)) \<and>
      fst (visitor_run walkFunc v (map gp_pkg (entries s order)) ! k)"
  then show "fst (Walk walkFunc order v s) =
      (zip (take (Suc k) (map gp_pkg (entries s order)))
         (map fst (take (Suc k) (visitor_run walkFunc v (map gp_pkg (entries s order))))),
       snd (visitor_run walkFunc v (map gp_pkg (entries s order)) ! k))"
    by (simp add: Walk_def walk_def walk_range_stops_at_first_true)
next
  assume "\<forall>a\<in>set (visitor_run walkFunc v (map gp_pkg (entries s order))). \<not> fst a"
  then show "fst (Walk walkFunc order v s) =
      (zip (map gp_pkg (entries s order))
         (map fst (visitor_run walkFunc v (map gp_pkg (entries s order)))),
       last (v # map snd (visitor_run walkFunc v (map gp_pkg (entries s order)))))"
    by (simp add: Walk_def walk_def walk_range_visits_all)
qed

lemma Add_app_descriptor: "Add app_descriptor NewCache = Inr after_Add_app"
  by (simp add: cache_defs app_descriptor_def util_descriptor_def after_Add_app_def
      numeral_2_eq_2)

lemma units_after_Add_app:
  "map gp_pkg (entries after_Add_app [''app'', ''util'', ''log'']) = [0, 1, 2]"
  "length (entries after_Add_app [''app'', ''util'', ''log'']) = 3"
  by (simp_all add: entries_def after_Add_app_def List.map_filter_simps)

lemma keys_after_Add_app:
  "distinct [''app'', ''util'', ''log'']"
  "set [''app'', ''util'', ''log''] = dom (pathMap after_Add_app)"
  by (auto simp: after_Add_app_def)

lemma runs_after_Add_app:
  "visitor_run (stop_on_call 1) 0 [0, 1, 2] = [(True, 1), (False, 2), (False, 3)]"
  "visitor_run (stop_on_call 2) 0 [0, 1, 2] = [(False, 1), (True, 2), (False, 3)]"
  "visitor_run (stop_on_call 3) 0 [0, 1, 2] = [(False, 1), (False, 2), (True, 3)]"
  "visitor_run count_all 0 [0, 1, 2] = [(False, 1), (False, 2), (False, 3)]"
  by (simp_all add: stop_on_call_def count_all_def)

theorem Walk_stops_at_true_or_visits_all_witness:
  "Add app_descriptor NewCache = Inr after_Add_app \<and>
   distinct [''app'', ''util'', ''log''] \<and>
   set [''app'', ''util'', ''log''] = dom (pathMap after_Add_app) \<and>
   fst (Walk (stop_on_call 1) [''app'', ''util'', ''log''] 0 after_Add_app) = ([(0, True)], 1) \<and>
   fst (Walk (stop_on_call 2) [''app'', ''util'', ''log''] 0 after_Add_app) =
     ([(0, False), (1, True)], 2) \<and>
   fst (Walk (stop_on_call 3) [''app'', ''util'', ''log''] 0 after_Add_app) =
     ([(0, False), (1, False), (2, True)], 3) \<and>
   fst (Walk count_all [''app'', ''util'', ''log''] 0 after_Add_app) =
     ([(0, False), (1, False), (2, False)], 3)"
proof -
  let ?order = "[''app'', ''util'', ''log'']"
  let ?units = "map gp_pkg (entries after_Add_app ?order)"
  note t = Walk_stops_at_true_or_visits_all[OF keys_after_Add_app]
  note stop = t[THEN conjunct2, THEN conjunct2, THEN conjunct1, rule_format]
  note all = t[THEN conjunct2, THEN conjunct2, THEN conjunct2, THEN mp]
  have p: "0 < length (entries after_Add_app ?order)" "1 < length (entries after_Add_app ?order)"
    "2 < length (entries after_Add_app ?order)"
    by (simp_all add: units_after_Add_app)
  have q1: "(\<forall>j<0. \<not> fst (visitor_run (stop_on_call 1) 0 ?units ! j)) \<and>
      fst (visitor_run (stop_on_call 1) 0 ?units ! 0)"
    by (simp only: units_after_Add_app runs_after_Add_app) simp
  have q2: "(\<forall>j<1. \<not> fst (visitor_run (stop_on_call 2) 0 ?units ! j)) \<and>
      fst (visitor_run (stop_on_call 2) 0 ?units ! 1)"
    by (simp only: units_after_Add_app runs_after_Add_app) simp
  have q3: "(\<forall>j<2. \<not> fst (visitor_run (stop_on_call 3) 0 ?units ! j)) \<and>
      fst (visitor_run (stop_on_call 3) 0 ?units ! 2)"
    by (simp only: units_after_Add_app runs_after_Add_app) (simp add: less_Suc_eq numeral_2_eq_2)
  have q4: "\<forall>a\<in>set (visitor_run count_all 0 ?units). \<not> fst a"
    by (simp only: units_after_Add_app runs_after_Add_app) simp
  have a: "fst (Walk (stop_on_call 1) ?order 0 after_Add_app) = ([(0, True)], 1)"
    using stop[OF p(1) q1] by (simp only: units_after_Add_app runs_after_Add_app) simp
  have b: "fst (Walk (stop_on_call 2) ?order 0 after_Add_app) = ([(0, False), (1, True)], 2)"
    using stop[OF p(2) q2] by (simp only: units_after_Add_app runs_after_Add_app) simp
  have c: "fst (Walk (stop_on_call 3) ?order 0 after_Add_app) =
      ([(0, False), (1, False), (2, True)], 3)"
    using stop[OF p(3) q3] by (simp only: units_after_Add_app runs_after_Add_app) simp
  have d: "fst (Walk count_all ?order 0 after_Add_app) =
      ([(0, False), (1, False), (2, False)], 3)"
    using all[OF q4] by (simp only: units_after_Add_app runs_after_Add_app) simp
  from Add_app_descriptor keys_after_Add_app a b c d show ?thesis
    by blast
qed

subsection \<open>Add twice\<close>

lemma recursiveAdd_present:
  "pathMap s (PkgPath d) = Some gp \<Longrightarrow>
   recursiveAdd d None s = Inr (emit RUnlock (emit (MapRead (PkgPath d)) (emit RLock s)))"
  by (cases d) (simp add: getGlobalPackage_def)

lemma addImport_frame:
  "addImport p ip s = Inr s' \<Longrightarrow>
   pathMap s' = pathMap s \<and> length (heap s') = length (heap s) \<and>
   (\<forall>q. types (heap s' ! q) = types (heap s ! q))"
  by (auto simp: addImport_def nth_list_update split: if_splits)

lemma put_frame:
  "put p s = Inr s' \<Longrightarrow>
   heap s' = heap s \<and> pathMap s' (the (types (heap s ! p))) = Some (GlobalPackage p)"
  by (auto simp: put_def emit_def split: if_splits option.splits)

text \<open>
  The units allocated before a call of \<^verbatim>\<open>recursiveAdd\<close> are still there after it, with
  the same \<^verbatim>\<open>types\<close>.
\<close>

lemma recursiveAdd_heap:
  "recursiveAdd d parent s = Inr s' \<Longrightarrow>
     length (heap s) \<le> length (heap s') \<and>
     (\<forall>q<length (heap s). types (heap s' ! q) = types (heap s ! q))"
  "recursiveAdd_imports ds p s = Inr s' \<Longrightarrow>
     length (heap s) \<le> length (heap s') \<and>
     (\<forall>q<length (heap s). types (heap s' ! q) = types (heap s ! q))"
proof (induction d parent s and ds p s arbitrary: s' and s'
    rule: recursiveAdd_recursiveAdd_imports.induct)
  case (1 i path syn ty imps parent s)
  show ?case
  proof (cases "pathMap s path")
    case (Some gp)
    with "1.prems" show ?thesis
      by (auto simp: getGlobalPackage_def emit_def split: option.splits dest!: addImport_frame)
  next
    case None
    let ?s1 = "emit RUnlock (emit (MapRead path) (emit RLock s))"
    obtain p s2 where np: "newPackage (Package i path syn ty imps) ?s1 = (p, s2)"
      by (cases "newPackage (Package i path syn ty imps) ?s1")
    from None "1.prems" np obtain s3 s4 where
      s3: "recursiveAdd_imports imps p s2 = Inr s3" and s4: "put p s3 = Inr s4"
      and fin: "(case parent of None \<Rightarrow> Inr s4 | Some par \<Rightarrow> addImport par p s4) = Inr s'"
      by (auto simp: getGlobalPackage_def split: sum.splits)
    have gg: "getGlobalPackage path s = (None, ?s1)"
      using None by (simp add: getGlobalPackage_def)
    from "1.IH"[OF gg[symmetric] refl np[symmetric] s3]
    have i3: "length (heap s2) \<le> length (heap s3)"
      "\<forall>q<length (heap s2). types (heap s3 ! q) = types (heap s2 ! q)"
      by auto
    from np have h2: "heap s2 = heap s @
        [\<lparr>pkg_id = i, pkgPath = path, files = createAstFiles (Package i path syn ty imps),
          types = ty, pkg_imports = Map.empty\<rparr>]"
      by (auto simp: newPackage_def emit_def)
    from s4 have h4: "heap s4 = heap s3"
      by (auto dest: put_frame)
    from fin have h': "length (heap s') = length (heap s4)"
      "\<forall>q. types (heap s' ! q) = types (heap s4 ! q)"
      by (auto split: option.splits dest!: addImport_frame)
    from i3 h2 h4 h' show ?thesis
      by (auto simp: nth_append)
  qed
next
  case (2 p s)
  then show ?case by simp
next
  case (3 ip ips p s)
  from "3.prems" obtain s1 where a: "recursiveAdd ip (Some p) s = Inr s1"
    and b: "recursiveAdd_imports ips p s1 = Inr s'"
    by (auto split: sum.splits)
  from "3.IH"(1)[OF a] "3.IH"(2)[OF a b] show ?case by auto
qed

text \<open>
  When does the first \<^verbatim>\<open>Add\<close> register the root under the path the second one looks
  up?  \<^verbatim>\<open>put\<close> files a unit under the path of its type-checked package, and
  \<^verbatim>\<open>recursiveAdd\<close> looks the descriptor's \<^verbatim>\<open>PkgPath\<close> up: when the two agree, the root
  is registered after every \<^verbatim>\<open>Add\<close> that returns.
\<close>

lemma Add_registers_root:
  assumes "Add d s = Inr s1" and "Types d = Some (PkgPath d)"
  shows "pathMap s1 (PkgPath d) \<noteq> None"
proof (cases d)
  case (Package i path syn ty imps)
  show ?thesis
  proof (cases "pathMap s path")
    case (Some gp)
    with assms Package show ?thesis
      by (auto simp: Add_def getGlobalPackage_def emit_def)
  next
    case None
    let ?s1 = "emit RUnlock (emit (MapRead path) (emit RLock s))"
    obtain p s2 where np: "newPackage d ?s1 = (p, s2)"
      by (cases "newPackage d ?s1")
    from None assms Package np obtain s3 where
      s3: "recursiveAdd_imports imps p s2 = Inr s3" and s4: "put p s3 = Inr s1"
      by (auto simp: Add_def getGlobalPackage_def split: sum.splits)
    from np Package have p: "p = length (heap s)"
      and h2: "heap s2 = heap s @
        [\<lparr>pkg_id = i, pkgPath = path, files = createAstFiles d, types = ty,
          pkg_imports = Map.empty\<rparr>]"
      by (auto simp: newPackage_def emit_def)
    from recursiveAdd_heap(2)[OF s3] p h2 have "types (heap s3 ! p) = ty"
      by (auto simp: nth_append)
    with put_frame[OF s4] assms(2) Package show ?thesis by auto
  qed
qed

text \<open>
  C9.  A second \<^verbatim>\<open>Add\<close> of the same root descriptor, after a first \<^verbatim>\<open>Add\<close> that has
  registered the root: it returns, and leaves the cache's map and every unit (so every
  import edge) as they were.
\<close>

theorem Add_again_leaves_cache_unchanged:
  assumes "Add d s = Inr s1" and "pathMap s1 (PkgPath d) \<noteq> None"
  shows "\<exists>s2. Add d s1 = Inr s2 \<and> pathMap s2 = pathMap s1 \<and> heap s2 = heap s1"
  using assms(2) by (auto simp: Add_def recursiveAdd_present emit_def)

theorem Add_again_leaves_cache_unchanged_witness:
  "Add main_descriptor NewCache = Inr after_Add_main \<and>
   pathMap after_Add_main (PkgPath main_descriptor) \<noteq> None \<and>
   (\<exists>s2. Add main_descriptor after_Add_main = Inr s2 \<and>
         pathMap s2 = pathMap after_Add_main \<and> heap s2 = heap after_Add_main)"
proof -
  have r: "pathMap after_Add_main (PkgPath main_descriptor) \<noteq> None"
    using Add_registers_root[OF Add_main_descriptor] by (simp add: main_descriptor_def)
  from Add_again_leaves_cache_unchanged[OF Add_main_descriptor r] Add_main_descriptor r
  show ?thesis by blast
qed


section \<open>Properties of the classifier\<close>

subsection \<open>One turn of the loop, by the type of the first node\<close>

text \<open>The type switch, read off case by case.\<close>

lemma loop_body_by_type:
  "loop_body pkg (GenDecl specs # rest) =
     (if length specs = 1 then Continue (specs ! 0 # GenDecl specs # rest)
      else Done (Inr (GenDecl specs # rest, actionUnknown)))"
  "loop_body pkg (FuncDecl name # rest) = Continue (Ident name # FuncDecl name # rest)"
  "loop_body pkg (ImportSpec # rest) = Done (Inr (ImportSpec # rest, actionPackage))"
  "loop_body pkg (ValueSpec names # rest) =
     (if length names = 1 then Continue (Ident (names ! 0) # ValueSpec names # rest)
      else Done (Inr (ValueSpec names # rest, actionUnknown)))"
  "loop_body pkg (TypeSpec name # rest) = Continue (Ident name # TypeSpec name # rest)"
  "loop_body pkg (Stmt # rest) = Done (Inr (Stmt # rest, actionStmt))"
  "loop_body pkg (CommClause # rest) = Done (Inr (CommClause # rest, actionStmt))"
  "loop_body pkg (ArrayType # rest) = Done (Inr (ArrayType # rest, actionType))"
  "loop_body pkg (StructType # rest) = Done (Inr (StructType # rest, actionType))"
  "loop_body pkg (FuncType # rest) = Done (Inr (FuncType # rest, actionType))"
  "loop_body pkg (InterfaceType # rest) = Done (Inr (InterfaceType # rest, actionType))"
  "loop_body pkg (MapType # rest) = Done (Inr (MapType # rest, actionType))"
  "loop_body pkg (ChanType # rest) = Done (Inr (ChanType # rest, actionType))"
  "loop_body pkg (Comment # rest) = Done (Inr (Comment # rest, actionUnknown))"
  "loop_body pkg (CommentGroup # rest) = Done (Inr (CommentGroup # rest, actionUnknown))"
  "loop_body pkg (File # rest) = Done (Inr (File # rest, actionUnknown))"
  "loop_body pkg (KeyValueExpr # rest) = Done (Inr (KeyValueExpr # rest, actionUnknown))"
  "loop_body pkg (Ellipsis # rest) = Continue rest"
  "loop_body pkg (Field names # rest) =
     (if length names = 1 then Continue (Ident (names ! 0) # Field names # rest)
      else Continue rest)"
  "loop_body pkg (FieldList # rest) = Continue rest"
  "loop_body pkg (BasicLit # rest) =
     (case rest of
        [] \<Rightarrow> Done (Inl IndexOutOfRange)
      | p1 # rest1 \<Rightarrow>
          if p1 = ImportSpec then Done (Inr (rest, actionPackage))
          else Done (Inr (BasicLit # rest, actionExpr)))"
  "loop_body pkg (SelectorExpr sel # rest) =
     (if Uses (GetTypesInfo pkg) sel = None
      then Done (Inr (SelectorExpr sel # rest, actionUnknown))
      else Continue (Ident sel # SelectorExpr sel # rest))"
  "loop_body pkg (Ident i # rest) = case_Ident pkg i (Ident i # rest)"
  "loop_body pkg (StarExpr e # rest) =
     (if IsType (GetTypesInfo pkg) e then Done (Inr (StarExpr e # rest, actionType))
      else Done (Inr (StarExpr e # rest, actionExpr)))"
  "loop_body pkg (Expr # rest) = Done (Inr (Expr # rest, actionExpr))"
  "loop_body pkg (OtherNode # rest) = Continue rest"
  by (simp_all add: loop_body_def Let_def implements_Stmt_def implements_Expr_def index_def
      split: list.splits)

lemma ObjectOf_unanalyzed: "ObjectOf (GetTypesInfo unanalyzed) i = None"
  by (simp add: unanalyzed_def ObjectOf_def)

lemma ObjectOf_analyzed: "ObjectOf (GetTypesInfo analyzed) 1 = Some types_Var"
  by (simp add: analyzed_def ObjectOf_def)

lemma findInterestingNode_Field_names:
  "length ns \<noteq> 1 \<Longrightarrow> findInterestingNode pkg (Field ns # rest) = findInterestingNode pkg rest"
  by (subst findInterestingNode.simps) (simp add: loop_body_by_type)

lemma findInterestingNode_FieldList:
  "findInterestingNode pkg (FieldList # rest) = findInterestingNode pkg rest"
  by (subst findInterestingNode.simps) (simp add: loop_body_by_type)

lemma findInterestingNode_StructType:
  "findInterestingNode pkg (StructType # rest) = Some (Inr (StructType # rest, actionType))"
  by (subst findInterestingNode.simps) (simp add: loop_body_by_type)

subsection \<open>An identifier with no object\<close>

text \<open>
  C2, as stated, fails where the parent is a field: the case \<^verbatim>\<open>*ast.Field\<close> of the second
  switch is there and is empty, so the classifier does not return \<^verbatim>\<open>unknown\<close>; it
  ascends.  For \<^verbatim>\<open>x\<close> in \<^verbatim>\<open>struct { x, y int }\<close>, with no object recorded for
  \<^verbatim>\<open>x\<close>, it returns the struct type with the category \<^verbatim>\<open>type\<close>.
\<close>

theorem no_object_Field_parent_counterexample:
  "ObjectOf (GetTypesInfo unanalyzed) 1 = None \<and>
   findInterestingNode unanalyzed two_fields_path =
     Some (Inr ([StructType, TypeSpec 2, GenDecl [TypeSpec 2], File], actionType)) \<and>
   findInterestingNode unanalyzed two_fields_path \<noteq> Some (Inr (two_fields_path, actionUnknown))"
proof -
  have "findInterestingNode unanalyzed two_fields_path =
      findInterestingNode unanalyzed
        [Field [1, 3], FieldList, StructType, TypeSpec 2, GenDecl [TypeSpec 2], File]"
    unfolding two_fields_path_def
    by (subst findInterestingNode.simps)
      (simp add: loop_body_by_type case_Ident_def case_no_object_def index_def ObjectOf_unanalyzed)
  then have "findInterestingNode unanalyzed two_fields_path =
      Some (Inr ([StructType, TypeSpec 2, GenDecl [TypeSpec 2], File], actionType))"
    by (simp add: findInterestingNode_Field_names findInterestingNode_FieldList
        findInterestingNode_StructType)
  then show ?thesis
    by (simp add: ObjectOf_unanalyzed)
qed

lemma findInterestingNode_Field:
  "findInterestingNode pkg (Field ns # rest) =
     (if length ns = 1 then findInterestingNode pkg (Ident (ns ! 0) # Field ns # rest)
      else findInterestingNode pkg rest)"
  by (subst findInterestingNode.simps) (simp add: loop_body_by_type)

lemma findInterestingNode_analyzed_struct_field:
  "findInterestingNode analyzed struct_field_path =
     Some (Inr ([StructType, TypeSpec 2, GenDecl [TypeSpec 2], File], actionType))"
  unfolding struct_field_path_def
  by (subst findInterestingNode.simps)
    (simp add: loop_body_by_type case_Ident_def ObjectOf_def analyzed_def case_Var_def index_def)

lemma ObjectOf_analyzed_other: "ObjectOf (GetTypesInfo analyzed) 5 = None"
  by (simp add: analyzed_def ObjectOf_def)

text \<open>
  C2, amended.  For an identifier with no object and a parent: a selector parent gives
  \<^verbatim>\<open>expression\<close> at the parent; the file root gives \<^verbatim>\<open>package-reference\<close> at the
  identifier; an import specifier gives \<^verbatim>\<open>package-reference\<close> at the parent; a field
  parent gives no verdict at the identifier: the classifier drops the identifier and goes
  on classifying from the field; every other parent gives \<^verbatim>\<open>unknown\<close> at the
  identifier.
\<close>

theorem no_object_by_parent:
  assumes "ObjectOf (GetTypesInfo pkg) i = None"
  shows "findInterestingNode pkg (Ident i # parent # rest) =
           (if is_SelectorExpr parent then Some (Inr (parent # rest, actionExpr))
            else if is_Field parent then findInterestingNode pkg (parent # rest)
            else if parent = File then Some (Inr (Ident i # parent # rest, actionPackage))
            else if parent = ImportSpec then Some (Inr (parent # rest, actionPackage))
            else Some (Inr (Ident i # parent # rest, actionUnknown)))"
proof -
  have "loop_body pkg (Ident i # parent # rest) = case_no_object (Ident i # parent # rest)"
    using assms by (simp add: loop_body_by_type case_Ident_def)
  then show ?thesis
    by (subst findInterestingNode.simps) (simp add: case_no_object_def index_def)
qed

text \<open>
  The cases of the theorem at work; the last two are field parents: \<^verbatim>\<open>x\<close> in
  \<^verbatim>\<open>struct { x, y int }\<close> with no object for \<^verbatim>\<open>x\<close>, and \<^verbatim>\<open>U\<close> in
  \<^verbatim>\<open>struct { x U }\<close> with no object for \<^verbatim>\<open>U\<close> and the variable \<^verbatim>\<open>x\<close>; both end
  at the struct type.
\<close>

theorem no_object_by_parent_witness:
  "ObjectOf (GetTypesInfo unanalyzed) 1 = None \<and>
   findInterestingNode unanalyzed [Ident 1, SelectorExpr 1, Expr, Stmt, File] =
     Some (Inr ([SelectorExpr 1, Expr, Stmt, File], actionExpr)) \<and>
   findInterestingNode unanalyzed [Ident 1, File] = Some (Inr ([Ident 1, File], actionPackage)) \<and>
   findInterestingNode unanalyzed [Ident 1, ImportSpec, GenDecl [ImportSpec], File] =
     Some (Inr ([ImportSpec, GenDecl [ImportSpec], File], actionPackage)) \<and>
   findInterestingNode unanalyzed [Ident 1, Stmt, File] =
     Some (Inr ([Ident 1, Stmt, File], actionUnknown)) \<and>
   findInterestingNode unanalyzed two_fields_path =
     Some (Inr ([StructType, TypeSpec 2, GenDecl [TypeSpec 2], File], actionType)) \<and>
   ObjectOf (GetTypesInfo analyzed) 5 = None \<and>
   findInterestingNode analyzed field_type_path =
     Some (Inr ([StructType, TypeSpec 2, GenDecl [TypeSpec 2], File], actionType))"
proof -
  note r = no_object_by_parent[OF ObjectOf_unanalyzed[of 1]]
  have a: "findInterestingNode unanalyzed [Ident 1, SelectorExpr 1, Expr, Stmt, File] =
     Some (Inr ([SelectorExpr 1, Expr, Stmt, File], actionExpr))"
    using r[of "SelectorExpr 1" "[Expr, Stmt, File]"] by simp
  have b: "findInterestingNode unanalyzed [Ident 1, File] =
     Some (Inr ([Ident 1, File], actionPackage))"
    using r[of File "[]"] by simp
  have c: "findInterestingNode unanalyzed [Ident 1, ImportSpec, GenDecl [ImportSpec], File] =
     Some (Inr ([ImportSpec, GenDecl [ImportSpec], File], actionPackage))"
    using r[of ImportSpec "[GenDecl [ImportSpec], File]"] by simp
  have d: "findInterestingNode unanalyzed [Ident 1, Stmt, File] =
     Some (Inr ([Ident 1, Stmt, File], actionUnknown))"
    using r[of Stmt "[File]"] by simp
  have e: "findInterestingNode unanalyzed two_fields_path =
     Some (Inr ([StructType, TypeSpec 2, GenDecl [TypeSpec 2], File], actionType))"
    using r[of "Field [1, 3]" "[FieldList, StructType, TypeSpec 2, GenDecl [TypeSpec 2], File]"]
    by (simp add: two_fields_path_def findInterestingNode_Field findInterestingNode_FieldList
        findInterestingNode_StructType)
  have f: "findInterestingNode analyzed field_type_path =
     Some (Inr ([StructType, TypeSpec 2, GenDecl [TypeSpec 2], File], actionType))"
    using no_object_by_parent[OF ObjectOf_analyzed_other,
        of "Field [1]" "[FieldList, StructType, TypeSpec 2, GenDecl [TypeSpec 2], File]"]
      findInterestingNode_analyzed_struct_field
    by (simp add: field_type_path_def struct_field_path_def findInterestingNode_Field)
  from ObjectOf_unanalyzed[of 1] ObjectOf_analyzed_other a b c d e f show ?thesis
    by blast
qed

subsection \<open>Running out of nodes\<close>

text \<open>
  C3, as stated, fails: a path that is used up is answered with the nil path and
  \<^verbatim>\<open>actionUnknown\<close>, an ordinary return; the function has no way to report a failure.
  Here the path is a lone field list.
\<close>

theorem exhausted_chain_counterexample:
  "ascends unanalyzed [FieldList] [] \<and>
   findInterestingNode unanalyzed [FieldList] = Some (Inr ([], actionUnknown))"
proof
  show "ascends unanalyzed [FieldList] []"
    by (rule ascends.turn[OF _ _ ascends.here]) (simp_all add: loop_body_by_type)
  show "findInterestingNode unanalyzed [FieldList] = Some (Inr ([], actionUnknown))"
    by (subst findInterestingNode.simps, simp add: loop_body_by_type)
      (subst findInterestingNode.simps, simp)
qed

text \<open>
  C3, amended.  When the loop uses its path up without having returned, the classifier
  returns the nil path with the category \<^verbatim>\<open>unknown\<close>; no failure is reported.
\<close>

theorem exhausted_chain_returns_unknown:
  "ascends pkg path [] \<Longrightarrow> findInterestingNode pkg path = Some (Inr ([], actionUnknown))"
proof (induction path "[] :: node list" rule: ascends.induct)
  case here
  show ?case
    by (subst findInterestingNode.simps) simp
next
  case (turn path path')
  then show ?case
    by (subst findInterestingNode.simps) simp
qed

theorem exhausted_chain_returns_unknown_witness:
  "ascends unanalyzed [Ellipsis, FieldList] [] \<and>
   findInterestingNode unanalyzed [Ellipsis, FieldList] = Some (Inr ([], actionUnknown))"
proof -
  have "ascends unanalyzed [FieldList] []"
    by (rule ascends.turn[OF _ _ ascends.here]) (simp_all add: loop_body_by_type)
  then have a: "ascends unanalyzed [Ellipsis, FieldList] []"
    by (rule ascends.turn[rotated 2]) (simp_all add: loop_body_by_type)
  from a exhausted_chain_returns_unknown[OF a] show ?thesis
    by simp
qed

subsection \<open>An identifier that is a variable\<close>

text \<open>
  C5.  On a well-formed chain that starts at an identifier whose object is a variable, the
  classifier returns \<^verbatim>\<open>expression\<close> at the identifier, unless the three ancestors of
  the identifier are a field, a field list and a struct type: then it returns \<^verbatim>\<open>type\<close>
  at the struct type, three nodes up.
\<close>

theorem variable_is_expression_or_struct_type:
  assumes "ObjectOf (GetTypesInfo pkg) i = Some types_Var"
    and "well_formed_chain (Ident i # rest)"
  shows "findInterestingNode pkg (Ident i # rest) =
           Some (Inr (if struct_member (Ident i # rest)
                      then (drop 3 (Ident i # rest), actionType)
                      else (Ident i # rest, actionExpr)))"
proof -
  from assms(2) obtain p1 rest1 where r: "rest = p1 # rest1"
    by (cases rest) auto
  have body: "loop_body pkg (Ident i # rest) = case_Var (Ident i # rest)"
    using assms(1) by (simp add: loop_body_by_type case_Ident_def)
  show ?thesis
  proof (cases "is_Field p1")
    case False
    then have "case_Var (Ident i # rest) = Done (Inr (Ident i # rest, actionExpr))"
      using r by (simp add: case_Var_def index_def)
    moreover have "\<not> struct_member (Ident i # rest)"
      using False r by (simp add: struct_member_def split: list.splits)
    ultimately show ?thesis using body
      by (subst findInterestingNode.simps) simp
  next
    case True
    with assms(2) r obtain rest2 where r2: "rest1 = FieldList # rest2"
      by (cases rest1) auto
    with assms(2) r True obtain p3 rest3 where r3: "rest2 = p3 # rest3"
      by (cases rest2) auto
    have "case_Var (Ident i # rest) =
            Done (Inr (if p3 = StructType then (drop 3 (Ident i # rest), actionType)
                       else (Ident i # rest, actionExpr)))"
      using r r2 r3 True by (simp add: case_Var_def index_def)
    moreover have "struct_member (Ident i # rest) = (p3 = StructType)"
      using r r2 r3 True by (simp add: struct_member_def)
    ultimately show ?thesis using body
      by (subst findInterestingNode.simps) simp
  qed
qed

theorem variable_is_expression_or_struct_type_witness:
  "ObjectOf (GetTypesInfo analyzed) 1 = Some types_Var \<and>
   well_formed_chain struct_field_path \<and>
   findInterestingNode analyzed struct_field_path =
     Some (Inr ([StructType, TypeSpec 2, GenDecl [TypeSpec 2], File], actionType)) \<and>
   well_formed_chain var_path \<and>
   findInterestingNode analyzed var_path = Some (Inr (var_path, actionExpr))"
proof -
  have w1: "well_formed_chain (Ident 1 # tl struct_field_path)"
    and w2: "well_formed_chain (Ident 1 # tl var_path)"
    by (simp_all add: struct_field_path_def var_path_def is_Spec_def)
  have a: "findInterestingNode analyzed struct_field_path =
      Some (Inr ([StructType, TypeSpec 2, GenDecl [TypeSpec 2], File], actionType))"
    using variable_is_expression_or_struct_type[OF ObjectOf_analyzed w1]
    by (simp add: struct_field_path_def struct_member_def)
  have b: "findInterestingNode analyzed var_path = Some (Inr (var_path, actionExpr))"
    using variable_is_expression_or_struct_type[OF ObjectOf_analyzed w2]
    by (simp add: var_path_def struct_member_def)
  have c: "well_formed_chain struct_field_path" "well_formed_chain var_path"
    by (simp_all add: struct_field_path_def var_path_def is_Spec_def)
  from ObjectOf_analyzed a b c show ?thesis
    by blast
qed

subsection \<open>No panic on a well-formed chain\<close>

text \<open>
  The index expressions \<^verbatim>\<open>path[1]\<close>, \<^verbatim>\<open>path[2]\<close>, \<^verbatim>\<open>path[3]\<close> and the assertion that
  \<^verbatim>\<open>path[2]\<close> is a field list are not guarded.  On a well-formed chain they are safe,
  and every path the loop goes on with is a well-formed chain again.
\<close>

lemma well_formed_chain_tl: "well_formed_chain (n # rest) \<Longrightarrow> n \<noteq> File \<Longrightarrow> well_formed_chain rest"
  by (cases rest) auto

lemma well_formed_chain_Ident: "well_formed_chain path \<Longrightarrow> well_formed_chain (Ident i # path)"
  by (cases path) auto

lemma case_Ident_well_formed:
  assumes "well_formed_chain (Ident i # rest)"
  shows "case_Ident pkg i (Ident i # rest) \<noteq> Done (Inl e)"
    and "case_Ident pkg i (Ident i # rest) = Continue path' \<Longrightarrow> path' = rest"
proof -
  from assms obtain p1 rest1 where r: "rest = p1 # rest1"
    by (cases rest) auto
  have v: "case_Var (Ident i # rest) \<noteq> Done (Inl e) \<and>
      case_Var (Ident i # rest) \<noteq> Continue path'"
  proof (cases "is_Field p1")
    case False
    with r show ?thesis
      by (simp add: case_Var_def index_def)
  next
    case True
    with assms r obtain rest2 where r2: "rest1 = FieldList # rest2"
      by (cases rest1) auto
    with assms r True obtain p3 rest3 where r3: "rest2 = p3 # rest3"
      by (cases rest2) auto
    with r r2 True show ?thesis
      by (simp add: case_Var_def index_def)
  qed
  have n: "case_no_object (Ident i # rest) \<noteq> Done (Inl e)"
    "case_no_object (Ident i # rest) = Continue path' \<Longrightarrow> path' = rest"
    using r by (auto simp: case_no_object_def index_def split: if_splits)
  show "case_Ident pkg i (Ident i # rest) \<noteq> Done (Inl e)"
    using v n(1) by (simp add: case_Ident_def split: option.splits object_kind.splits)
  show "case_Ident pkg i (Ident i # rest) = Continue path' \<Longrightarrow> path' = rest"
    using v n(2) by (auto simp add: case_Ident_def split: option.splits object_kind.splits)
qed

lemma loop_body_keeps_well_formed:
  assumes "well_formed_chain path" and "loop_body pkg path = Continue path'"
  shows "well_formed_chain path'"
proof -
  from assms(1) obtain n rest where p: "path = n # rest"
    by (cases path) auto
  show ?thesis
  proof (cases n)
    case (GenDecl specs)
    with assms(2) p have l: "length specs = 1" and p': "path' = specs ! 0 # path"
      by (auto simp: loop_body_by_type split: if_splits)
    from l obtain sp where s: "specs = [sp]"
      by (cases specs) auto
    from assms(1) p GenDecl s have "is_Spec sp"
      by (cases rest) auto
    with p' s assms(1) p GenDecl show ?thesis
      by (auto simp: is_Spec_def)
  next
    case (Ident i)
    with assms p case_Ident_well_formed(2)[of i rest pkg path'] have "path' = rest"
      by (simp add: loop_body_by_type)
    with assms(1) p Ident show ?thesis
      by (auto dest: well_formed_chain_tl)
  next
    case (Field names)
    with assms p show ?thesis
      by (auto simp: loop_body_by_type well_formed_chain_Ident split: if_splits
          dest: well_formed_chain_tl)
  next
    case BasicLit
    with assms p show ?thesis
      by (auto simp: loop_body_by_type split: if_splits list.splits)
  qed (use assms p in \<open>auto simp: loop_body_by_type well_formed_chain_Ident split: if_splits
        dest: well_formed_chain_tl\<close>)
qed

lemma loop_body_no_panic:
  assumes "well_formed_chain path"
  shows "loop_body pkg path \<noteq> Done (Inl e)"
proof -
  from assms obtain n rest where p: "path = n # rest"
    by (cases path) auto
  show ?thesis
  proof (cases n)
    case (Ident i)
    with assms p case_Ident_well_formed(1)[of i rest pkg e] show ?thesis
      by (simp add: loop_body_by_type)
  next
    case BasicLit
    with assms p show ?thesis
      by (cases rest) (auto simp: loop_body_by_type)
  qed (use p in \<open>auto simp: loop_body_by_type\<close>)
qed

lemma findInterestingNode_returns_no_panic:
  assumes "findInterestingNode pkg path = Some y"
  shows "well_formed_chain path \<longrightarrow> \<not> isl y"
  using assms
proof (induction pkg path y
    rule: findInterestingNode.raw_induct[rotated 1, consumes 1, case_names loop])
  case (loop f pkg path y)
  show ?case
  proof
    assume w: "well_formed_chain path"
    then have ne: "0 < length path"
      by (cases path) auto
    show "\<not> isl y"
    proof (cases "loop_body pkg path")
      case (Done r)
      with loop.hyps ne have "y = r"
        by simp
      with Done loop_body_no_panic[OF w, of pkg] show ?thesis
        by (cases r) auto
    next
      case (Continue path')
      with loop.hyps ne have "f pkg path' = Some y"
        by simp
      from loop.IH[OF this] loop_body_keeps_well_formed[OF w Continue] show ?thesis
        by simp
    qed
  qed
qed

lemma findInterestingNode_no_panic:
  "well_formed_chain path \<Longrightarrow> findInterestingNode pkg path \<noteq> Some (Inl e)"
  using findInterestingNode_returns_no_panic[of pkg path "Inl e"] by auto

text \<open>
  So the loop does not use a well-formed chain up: the statement after the loop is not
  reached from one.
\<close>

lemma ascends_keeps_well_formed:
  "ascends pkg path path' \<Longrightarrow> well_formed_chain path \<Longrightarrow> well_formed_chain path'"
  by (induction rule: ascends.induct) (auto dest: loop_body_keeps_well_formed)

lemma well_formed_chain_not_exhausted:
  "well_formed_chain path \<Longrightarrow> \<not> ascends pkg path []"
  using ascends_keeps_well_formed[of pkg path "[]"] by auto

subsection \<open>A loop that does not end\<close>

text \<open>
  An identifier with no object whose parent is a field of that one name: the second switch
  ascends to the field, the case \<^verbatim>\<open>*ast.Field\<close> of the first switch descends to the
  name again, and so on.  No call on either path returns.
\<close>

lemma no_object_single_name_Field_loops:
  assumes "findInterestingNode pkg path = Some y"
  shows "\<not> (ObjectOf (GetTypesInfo pkg) i = None \<and>
           (path = Ident i # Field [i] # rest \<or> path = Field [i] # rest))"
  using assms
proof (induction pkg path y
    rule: findInterestingNode.raw_induct[rotated 1, consumes 1, case_names loop])
  case (loop f pkg path y)
  show ?case
  proof
    assume a: "ObjectOf (GetTypesInfo pkg) i = None \<and>
      (path = Ident i # Field [i] # rest \<or> path = Field [i] # rest)"
    then consider "path = Ident i # Field [i] # rest" | "path = Field [i] # rest"
      by blast
    then show False
    proof cases
      case 1
      with a have "loop_body pkg path = Continue (Field [i] # rest)"
        by (simp add: loop_body_by_type case_Ident_def case_no_object_def index_def)
      with loop.hyps 1 have "f pkg (Field [i] # rest) = Some y"
        by simp
      from loop.IH[OF this] a show False
        by simp
    next
      case 2
      then have "loop_body pkg path = Continue (Ident i # Field [i] # rest)"
        by (simp add: loop_body_by_type)
      with loop.hyps 2 have "f pkg (Ident i # Field [i] # rest) = Some y"
        by simp
      from loop.IH[OF this] a show False
        by simp
    qed
  qed
qed

text \<open>
  C10.  The claim: on every well-formed chain that ends at the file root the classifier
  terminates and returns without a panic.  The chain of \<^verbatim>\<open>x\<close> in
  \<^verbatim>\<open>type T struct { x int }\<close> is well formed; in a package whose type-checker has no
  object for \<^verbatim>\<open>x\<close> the classifier does not return on it.  (The other half of the claim
  holds: by \<open>findInterestingNode_no_panic\<close> a call on a well-formed chain that returns
  does not return a panic.)
\<close>

theorem findInterestingNode_diverges_on_well_formed_chain:
  "well_formed_chain struct_field_path \<and>
   ObjectOf (GetTypesInfo unanalyzed) 1 = None \<and>
   findInterestingNode unanalyzed struct_field_path = None"
proof -
  have "findInterestingNode unanalyzed struct_field_path = None"
    using no_object_single_name_Field_loops[of unanalyzed struct_field_path _ 1
        "[FieldList, StructType, TypeSpec 2, GenDecl [TypeSpec 2], File]"]
    by (cases "findInterestingNode unanalyzed struct_field_path")
      (auto simp: struct_field_path_def ObjectOf_unanalyzed)
  then show ?thesis
    by (simp add: struct_field_path_def ObjectOf_unanalyzed is_Spec_def)
qed


section \<open>Properties of the resolver\<close>

lemma doEnclosingInterval_range_filter:
  "doEnclosingInterval_range X fs start endpos =
   doEnclosingInterval_range X (filter (considered X start) fs) start endpos"
  by (induction fs) (auto simp: considered_def split: prod.splits option.splits)

lemma doEnclosingInterval_range_none:
  "\<forall>f\<in>set fs. \<not> considered X start f \<Longrightarrow>
   doEnclosingInterval_range X fs start endpos = ([], False)"
  by (induction fs) (auto simp: considered_def)

lemma doEnclosingInterval_range_found:
  "doEnclosingInterval_range X fs start endpos = (path, exact) \<Longrightarrow> path \<noteq> [] \<Longrightarrow>
   \<exists>f\<in>set fs. considered X start f \<and> PathEnclosingInterval X f start endpos = (Some path, exact)"
  by (induction fs) (auto simp: considered_def split: prod.splits option.splits if_splits)

lemma doEnclosingInterval_files:
  "doEnclosingInterval X (Some pkg) start endpos =
   doEnclosingInterval_range X (files_of pkg) start endpos"
  by (simp add: doEnclosingInterval_def files_of_def split: option.splits)

lemma considered_unit_B:
  "filter (considered three_files 250) (files_of unit_B) = [\<lparr>File_Pos = 203, File_tree = 2\<rparr>]"
  "\<forall>f\<in>set (files_of unit_B). \<not> considered three_files 500 f"
  by (simp_all add: considered_def three_files_def unit_B_def files_of_def NoPos_def)

lemma search_unit_B:
  "doEnclosingInterval three_files (Some unit_B) 250 250 =
     ([Ident 7, ValueSpec [7], GenDecl [ValueSpec [7]], File], True)"
  by (simp add: doEnclosingInterval_def unit_B_def three_files_def NoPos_def)

text \<open>
  C7.  The interval search of a unit looks into the files that are position-valid and
  whose range contains the start position, in their order, and into no other: a file
  without a valid position is passed over (the search has no way to fail), and a path it
  returns is one that \<^verbatim>\<open>PathEnclosingInterval\<close> found in such a file.  \<^verbatim>\<open>getPathNodes\<close>
  fails with \<^verbatim>\<open>no node found\<close> when no such file is there and when the path found is
  empty, and what it returns otherwise is the path found, which is not empty.
\<close>

theorem interval_search_files_and_not_found:
  "doEnclosingInterval X (Some pkg) start endpos =
     doEnclosingInterval_range X (filter (considered X start) (files_of pkg)) start endpos \<and>
   (\<forall>path exact. doEnclosingInterval X (Some pkg) start endpos = (path, exact) \<and> path \<noteq> [] \<longrightarrow>
      (\<exists>f\<in>set (files_of pkg). considered X start f \<and>
         PathEnclosingInterval X f start endpos = (Some path, exact))) \<and>
   ((\<forall>f\<in>set (files_of pkg). \<not> considered X start f) \<longrightarrow>
      getPathNodes X (Some pkg) start endpos = ([], Some (NoNodeFound start))) \<and>
   (fst (doEnclosingInterval X (Some pkg) start endpos) = [] \<longrightarrow>
      getPathNodes X (Some pkg) start endpos = ([], Some (NoNodeFound start))) \<and>
   (fst (doEnclosingInterval X (Some pkg) start endpos) \<noteq> [] \<longrightarrow>
      getPathNodes X (Some pkg) start endpos =
        (fst (doEnclosingInterval X (Some pkg) start endpos), None))"
proof (intro conjI allI impI)
  show "doEnclosingInterval X (Some pkg) start endpos =
     doEnclosingInterval_range X (filter (considered X start) (files_of pkg)) start endpos"
    using doEnclosingInterval_range_filter[of X "files_of pkg"]
    by (simp add: doEnclosingInterval_files)
next
  fix path exact
  assume "doEnclosingInterval X (Some pkg) start endpos = (path, exact) \<and> path \<noteq> []"
  then show "\<exists>f\<in>set (files_of pkg). considered X start f \<and>
         PathEnclosingInterval X f start endpos = (Some path, exact)"
    by (simp add: doEnclosingInterval_files doEnclosingInterval_range_found)
next
  assume "\<forall>f\<in>set (files_of pkg). \<not> considered X start f"
  then show "getPathNodes X (Some pkg) start endpos = ([], Some (NoNodeFound start))"
    by (simp add: getPathNodes_def astPathEnclosingInterval_def doEnclosingInterval_files
        doEnclosingInterval_range_none)
next
  assume "fst (doEnclosingInterval X (Some pkg) start endpos) = []"
  then show "getPathNodes X (Some pkg) start endpos = ([], Some (NoNodeFound start))"
    by (simp add: getPathNodes_def astPathEnclosingInterval_def)
next
  assume "fst (doEnclosingInterval X (Some pkg) start endpos) \<noteq> []"
  then show "getPathNodes X (Some pkg) start endpos =
      (fst (doEnclosingInterval X (Some pkg) start endpos), None)"
    by (simp add: getPathNodes_def astPathEnclosingInterval_def)
qed

theorem interval_search_files_and_not_found_witness:
  "filter (considered three_files 250) (files_of unit_B) = [\<lparr>File_Pos = 203, File_tree = 2\<rparr>] \<and>
   doEnclosingInterval three_files (Some unit_B) 250 250 =
     doEnclosingInterval_range three_files [\<lparr>File_Pos = 203, File_tree = 2\<rparr>] 250 250 \<and>
   doEnclosingInterval three_files (Some unit_B) 250 250 =
     ([Ident 7, ValueSpec [7], GenDecl [ValueSpec [7]], File], True) \<and>
   getPathNodes three_files (Some unit_B) 250 250 =
     ([Ident 7, ValueSpec [7], GenDecl [ValueSpec [7]], File], None) \<and>
   getPathNodes three_files (Some unit_B) 500 500 = ([], Some (NoNodeFound 500))"
proof -
  note t = interval_search_files_and_not_found[of three_files unit_B]
  from t[of 250 250] have a: "doEnclosingInterval three_files (Some unit_B) 250 250 =
     doEnclosingInterval_range three_files [\<lparr>File_Pos = 203, File_tree = 2\<rparr>] 250 250"
    by (simp add: considered_unit_B)
  from t[of 500 500] considered_unit_B(2)
  have b: "getPathNodes three_files (Some unit_B) 500 500 = ([], Some (NoNodeFound 500))"
    by blast
  from t[of 250 250] have c: "getPathNodes three_files (Some unit_B) 250 250 =
     ([Ident 7, ValueSpec [7], GenDecl [ValueSpec [7]], File], None)"
    by (simp add: search_unit_B)
  from a b c considered_unit_B(1) search_unit_B show ?thesis
    by blast
qed

text \<open>
  What \<^verbatim>\<open>getObjectPathNode\<close> does with a symbol whose position lies in no file of the
  package it is given: when the import lookup gives a package and the search of that
  package finds a path that starts at an identifier, it returns that path and that
  identifier; when the lookup gives nothing, it fails with the error that the import does
  not exist (the package has a type-checked package, whose path the error names).
\<close>

lemma getObjectPathNode_through_import:
  assumes "\<forall>f\<in>set (files_of A). \<not> considered X (Object_Pos S) f"
    and "Object_Pkg S = Some bpath"
  shows "(\<forall>B i rest exact.
            GetImport A bpath = Some B \<and>
            doEnclosingInterval X (Some B) (Object_Pos S) (Object_Pos S) =
              (Ident i # rest, exact)
            \<longrightarrow> getObjectPathNode X A S = Inr (Ident i # rest, i)) \<and>
         (\<forall>apath. GetImport A bpath = None \<and> GetTypes A = Some apath
            \<longrightarrow> getObjectPathNode X A S = Inl (ImportDoesNotExist bpath apath))"
proof -
  have a: "getPathNodes X (Some A) (Object_Pos S) (Object_Pos S) =
      ([], Some (NoNodeFound (Object_Pos S)))"
    using assms(1)
    by (simp add: getPathNodes_def astPathEnclosingInterval_def doEnclosingInterval_files
        doEnclosingInterval_range_none)
  show ?thesis
    using a assms(2)
    by (auto simp: getObjectPathNode_def getPathNodes_def astPathEnclosingInterval_def
        fetchIdentFromPathNodes_def index_def)
qed



end
